theory Spec2Isabelle
  imports Complex_Main
begin

section \<open>Data model\<close>

text \<open>
  The hierarchical SVD of \<^verbatim>\<open>heat/core/linalg/svdtools.py\<close>. Floating-point numbers
  are idealised as reals; the element type of a tensor is kept as a value of its own,
  since the noise level depends on it. Python integers are \<open>int\<close>, shapes are \<open>nat\<close>.
\<close>

datatype dtype = Float32 | Float64 | OtherDtype

datatype error = TypeError | ValueError | RuntimeError | UnboundLocalError | IndexError

text \<open>
  A two-dimensional tensor: the number of rows and the list of its columns (each column a
  list of \<open>nrows\<close> entries). The row count is a field of its own because a tensor with no
  column still has a first dimension (\<^verbatim>\<open>U_loc.shape[0]\<close>).
\<close>

record 'a tensor =
  nrows :: nat
  columns :: "'a list list"

definition shape1 :: "'a tensor \<Rightarrow> nat" where
  "shape1 T = length (columns T)"

text \<open>Python slices \<^verbatim>\<open>xs[k:]\<close> and \<^verbatim>\<open>xs[:k]\<close>: a negative bound counts from the end,
  and every bound is clamped to the list.\<close>

definition slice_from :: "'a list \<Rightarrow> int \<Rightarrow> 'a list" where
  "slice_from xs k = (if k < 0 then drop (nat (int (length xs) + k)) xs else drop (nat k) xs)"

definition slice_to :: "'a list \<Rightarrow> int \<Rightarrow> 'a list" where
  "slice_to xs k = (if k < 0 then take (nat (int (length xs) + k)) xs else take (nat k) xs)"

text \<open>\<^verbatim>\<open>U[:, :k]\<close>: the first columns of a tensor.\<close>

definition col_slice_to :: "'a tensor \<Rightarrow> int \<Rightarrow> 'a tensor" where
  "col_slice_to T k = \<lparr>nrows = nrows T, columns = slice_to (columns T) k\<rparr>"

text \<open>\<^verbatim>\<open>torch.zeros(m, n)\<close>.\<close>

definition zeros :: "nat \<Rightarrow> nat \<Rightarrow> real tensor" where
  "zeros m n = \<lparr>nrows = m, columns = replicate n (replicate m 0)\<rparr>"

text \<open>\<^verbatim>\<open>torch.norm\<close> / \<^verbatim>\<open>torch.linalg.norm\<close> of a vector: the Euclidean norm.\<close>

definition norm2 :: "real list \<Rightarrow> real" where
  "norm2 xs = sqrt (sum_list (map (\<lambda>x. x\<^sup>2) xs))"

text \<open>Python's \<^verbatim>\<open>min\<close> and \<^verbatim>\<open>max\<close> of a sequence raise ValueError on an empty one.\<close>

fun py_min :: "int list \<Rightarrow> error + int" where
  "py_min [] = Inl ValueError"
| "py_min (x # xs) = Inr (fold min xs x)"

fun py_max :: "int list \<Rightarrow> error + int" where
  "py_max [] = Inl ValueError"
| "py_max (x # xs) = Inr (fold max xs x)"

text \<open>\<^verbatim>\<open>torch.argwhere(v >= c)\<close> and \<^verbatim>\<open>torch.argwhere(v < c)\<close>: the indices, ascending.\<close>

definition argwhere_ge :: "real list \<Rightarrow> real \<Rightarrow> int list" where
  "argwhere_ge v c = map int (filter (\<lambda>i. c \<le> v ! i) [0..<length v])"

definition argwhere_less :: "real list \<Rightarrow> real \<Rightarrow> int list" where
  "argwhere_less v c = map int (filter (\<lambda>i. v ! i < c) [0..<length v])"

section \<open>Local truncated SVD\<close>

text \<open>
  The noise level of \<^verbatim>\<open>compute_local_truncated_svd\<close>: the variable is bound for float64
  and float32 only, so its first use raises for any other element type.
\<close>

definition noiselevel :: "dtype \<Rightarrow> error + real" where
  "noiselevel dt =
     (case dt of Float64 \<Rightarrow> Inr (1 / 10 ^ 14) | Float32 \<Rightarrow> Inr (1 / 10 ^ 7)
      | OtherDtype \<Rightarrow> Inl UnboundLocalError)"

text \<open>
  \<^verbatim>\<open>[torch.norm(sigma_loc[k:]) ** 2 for k in range(sigma_loc.shape[0] + 1)]\<close>
\<close>

definition tail_norms_squared :: "real list \<Rightarrow> real list" where
  "tail_norms_squared sigma_loc =
     map (\<lambda>k. (norm2 (slice_from sigma_loc (int k)))\<^sup>2) [0..<length sigma_loc + 1]"

text \<open>
  \<^verbatim>\<open>ideal_trunc_rank = min(torch.argwhere(torch.tensor([...]) < loctol**2))\<close>
\<close>

definition ideal_trunc_rank :: "real list \<Rightarrow> real \<Rightarrow> error + int" where
  "ideal_trunc_rank sigma_loc loctol =
     py_min (argwhere_less (tail_norms_squared sigma_loc) (loctol\<^sup>2))"

text \<open>
  \<^verbatim>\<open>compute_local_truncated_svd(level, proc_id, U_loc, maxrank, loctol, safetyshift)\<close>.
  The thin SVD is the backend's (\<^verbatim>\<open>torch.linalg.svd\<close>): it is the parameter \<open>svd\<close>,
  returning the left factor and the singular values. \<open>dt\<close> is the element type of
  \<open>U_loc\<close>. \<open>level\<close> and \<open>proc_id\<close> are only printed and are left out, as is the
  printed notice itself.
\<close>

definition compute_local_truncated_svd ::
  "(real tensor \<Rightarrow> real tensor \<times> real list) \<Rightarrow> dtype \<Rightarrow> real tensor \<Rightarrow> int \<Rightarrow>
   real option \<Rightarrow> int \<Rightarrow> error + (real tensor \<times> real list \<times> real)" where
  "compute_local_truncated_svd svd dt U_loc maxrank loctol safetyshift =
     (let (U_f, sigma_loc) = svd U_loc in
      case noiselevel dt of
        Inl e \<Rightarrow> Inl e
      | Inr nl \<Rightarrow>
          let no_noise_idx = argwhere_ge sigma_loc nl in
          if length no_noise_idx \<noteq> 0 then
            (case py_max no_noise_idx of
               Inl e \<Rightarrow> Inl e
             | Inr mx \<Rightarrow>
                 let cut_noise_rank = mx + 1 in
                 (case (case loctol of
                          None \<Rightarrow> Inr (min maxrank cut_noise_rank)
                        | Some tol \<Rightarrow>
                            (case ideal_trunc_rank sigma_loc tol of
                               Inl e \<Rightarrow> Inl e
                             | Inr itr \<Rightarrow> Inr (min maxrank (min itr cut_noise_rank)))) of
                    Inl e \<Rightarrow> Inl e
                  | Inr base_rank \<Rightarrow>
                      let loc_trunc_rank =
                            min (int (length sigma_loc)) (base_rank + safetyshift);
                          err_squared_loc =
                            (norm2 (slice_from sigma_loc (loc_trunc_rank - safetyshift)))\<^sup>2
                      in Inr (col_slice_to U_f loc_trunc_rank,
                              slice_to sigma_loc loc_trunc_rank, err_squared_loc)))
          else Inr (zeros (nrows U_f) 1, [0], (norm2 sigma_loc)\<^sup>2))"

section \<open>The user-facing gates\<close>

text \<open>
  A distributed array, as far as the routines read it: its global shape, element type,
  split axis and the local blocks of the processes (one per process of the communicator,
  in rank order). The local blocks are two-dimensional; both gates reject every array that
  is not two-dimensional before they read them.
\<close>

record dndarray =
  gshape :: "nat list"
  dtype :: dtype
  split :: "nat option"
  larrays :: "real tensor list"

text \<open>An argument in the place of \<open>A\<close>: a distributed array or anything else.\<close>

datatype py_arg = DND dndarray | NotDND

definition ndim :: "dndarray \<Rightarrow> nat" where
  "ndim A = length (gshape A)"

text \<open>\<^verbatim>\<open>A.lshape_map\<close>: the local shape of every process.\<close>

definition lshape_map :: "dndarray \<Rightarrow> (nat \<times> nat) list" where
  "lshape_map A = map (\<lambda>T. (nrows T, shape1 T)) (larrays A)"

text \<open>The keyword arguments of a call of \<^verbatim>\<open>hsvd\<close>.\<close>

record hsvd_args =
  kw_maxrank :: int
  kw_maxmergedim :: int
  kw_rtol :: "real option"
  kw_safetyshift :: int
  kw_no_of_merges :: "int option"
  kw_full :: bool

text \<open>
  \<^verbatim>\<open>hsvd_rank(A, maxrank, full, maxmergedim, safetyshift, silent)\<close> up to its call of
  \<^verbatim>\<open>hsvd\<close>: the error it raises, or the array and the arguments it passes on.
\<close>

definition hsvd_rank_gate ::
  "py_arg \<Rightarrow> int \<Rightarrow> bool \<Rightarrow> int option \<Rightarrow> int \<Rightarrow> error + (dndarray \<times> hsvd_args)" where
  "hsvd_rank_gate arg maxrank full maxmergedim safetyshift =
     (case arg of
        NotDND \<Rightarrow> Inl TypeError
      | DND A \<Rightarrow>
          if \<not> ndim A = 2 then Inl ValueError
          else if \<not> dtype A = Float32 \<and> \<not> dtype A = Float64 then Inl TypeError
          else
            (case py_max (map (\<lambda>s. int (snd s)) (lshape_map A)) of
               Inl e \<Rightarrow> Inl e
             | Inr A_local_size \<Rightarrow>
                 (case maxmergedim of
                    Some mmd \<Rightarrow>
                      if mmd < 2 * (maxrank + safetyshift) + 1 then Inl RuntimeError
                      else Inr (A, \<lparr>kw_maxrank = maxrank, kw_maxmergedim = mmd, kw_rtol = None,
                                    kw_safetyshift = safetyshift, kw_no_of_merges = None,
                                    kw_full = full\<rparr>)
                  | None \<Rightarrow>
                      Inr (A, \<lparr>kw_maxrank = maxrank,
                               kw_maxmergedim =
                                 (if A_local_size \<ge> 2 * (maxrank + safetyshift)
                                  then A_local_size
                                  else 2 * (maxrank + safetyshift) + 1),
                               kw_rtol = None, kw_safetyshift = safetyshift,
                               kw_no_of_merges = None, kw_full = full\<rparr>))))"

text \<open>
  \<^verbatim>\<open>hsvd_rtol(A, rtol, full, maxrank, maxmergedim, safetyshift, no_of_merges, silent)\<close>
  up to its call of \<^verbatim>\<open>hsvd\<close>. The four defaulting steps run in the order of the source,
  each on the values the previous ones left.
\<close>

definition hsvd_rtol_gate ::
  "py_arg \<Rightarrow> real \<Rightarrow> bool \<Rightarrow> int option \<Rightarrow> int option \<Rightarrow> int \<Rightarrow> int option \<Rightarrow>
   error + (dndarray \<times> hsvd_args)" where
  "hsvd_rtol_gate arg rtol full maxrank0 maxmergedim0 safetyshift no_of_merges0 =
     (case arg of
        NotDND \<Rightarrow> Inl TypeError
      | DND A \<Rightarrow>
          if \<not> ndim A = 2 then Inl ValueError
          else if \<not> dtype A = Float32 \<and> \<not> dtype A = Float64 then Inl TypeError
          else
            (case py_max (map (\<lambda>s. int (snd s)) (lshape_map A)) of
               Inl e \<Rightarrow> Inl e
             | Inr A_local_size \<Rightarrow>
                 let maxrank1 =
                       (if maxmergedim0 \<noteq> None \<and> maxrank0 = None
                        then Some (A_local_size div 2 - safetyshift) else maxrank0)
                 in
                 if maxmergedim0 \<noteq> None \<and> maxrank0 = None
                    \<and> A_local_size div 2 - safetyshift \<le> 0
                 then Inl ValueError
                 else
                   let maxmergedim1 =
                         (case (maxmergedim0, maxrank1) of
                            (None, Some mr) \<Rightarrow>
                              Some (if A_local_size \<ge> 2 * (mr + safetyshift)
                                    then A_local_size
                                    else 2 * (mr + safetyshift) + 1)
                          | _ \<Rightarrow> maxmergedim0)
                   in
                   (case (maxmergedim1, maxrank1) of
                      (Some mmd, Some mr) \<Rightarrow>
                        if mmd < 2 * (mr + safetyshift) + 1 then Inl ValueError
                        else
                          (case no_of_merges0 of
                             Some n \<Rightarrow>
                               if n < 2 then Inl ValueError
                               else Inr (A, \<lparr>kw_maxrank = mr, kw_maxmergedim = mmd,
                                             kw_rtol = Some rtol, kw_safetyshift = safetyshift,
                                             kw_no_of_merges = Some n, kw_full = full\<rparr>)
                           | None \<Rightarrow>
                               Inr (A, \<lparr>kw_maxrank = mr, kw_maxmergedim = mmd,
                                        kw_rtol = Some rtol, kw_safetyshift = safetyshift,
                                        kw_no_of_merges = None, kw_full = full\<rparr>))
                    | _ \<Rightarrow>
                        let no_of_merges1 =
                              (case no_of_merges0 of None \<Rightarrow> 2 | Some n \<Rightarrow> n);
                            mmd = 2 * (int (gshape A ! 1) + safetyshift) + 1;
                            mr = int (gshape A ! 1)
                        in
                        if no_of_merges1 < 2 then Inl ValueError
                        else Inr (A, \<lparr>kw_maxrank = mr, kw_maxmergedim = mmd,
                                      kw_rtol = Some rtol, kw_safetyshift = safetyshift,
                                      kw_no_of_merges = Some no_of_merges1, kw_full = full\<rparr>))))"

section \<open>The merging tree\<close>

text \<open>
  The variables of the scheduling sweep of \<^verbatim>\<open>hsvd\<close> (``determine future nodes and prepare
  sending''). An entry of \<open>send_to\<close> that was never assigned (the source's \<^verbatim>\<open>[]\<close>) is
  \<open>None\<close>.
\<close>

record sweep_state =
  future_nodes :: "nat list"
  send_to :: "nat option list"
  current_future_node :: nat
  used_budget :: nat
  counter :: int

text \<open>One pass of the body of \<^verbatim>\<open>while k < len(active_nodes)\<close>, for
  \<^verbatim>\<open>current_idx = active_nodes[k]\<close>.\<close>

definition sweep_step ::
  "nat list \<Rightarrow> int \<Rightarrow> int option \<Rightarrow> sweep_state \<Rightarrow> nat \<Rightarrow> error + sweep_state" where
  "sweep_step dims_global mmd nom s current_idx =
     (if length dims_global \<le> current_idx then Inl IndexError
      else if int (used_budget s + dims_global ! current_idx) > mmd \<or> Some (counter s) = nom
      then Inr (s\<lparr>current_future_node := current_idx,
                  future_nodes := future_nodes s @ [current_idx],
                  used_budget := dims_global ! current_idx,
                  counter := 1\<rparr>)
      else Inr (s\<lparr>send_to :=
                    (if \<not> used_budget s = 0
                     then (send_to s)[current_idx := Some (current_future_node s)]
                     else send_to s),
                  used_budget := used_budget s + dims_global ! current_idx,
                  counter := counter s + 1\<rparr>))"

fun sweep ::
  "nat list \<Rightarrow> int \<Rightarrow> int option \<Rightarrow> nat list \<Rightarrow> sweep_state \<Rightarrow> error + sweep_state" where
  "sweep dims_global mmd nom [] s = Inr s"
| "sweep dims_global mmd nom (a # as) s =
     (case sweep_step dims_global mmd nom s a of
        Inl e \<Rightarrow> Inl e
      | Inr s' \<Rightarrow> sweep dims_global mmd nom as s')"

text \<open>The state the sweep starts from: \<^verbatim>\<open>future_nodes = [0]\<close>,
  \<^verbatim>\<open>send_to = [[]] * no_procs\<close>, and the counters at zero.\<close>

definition sweep_init :: "nat \<Rightarrow> sweep_state" where
  "sweep_init no_procs =
     \<lparr>future_nodes = [0], send_to = replicate no_procs None, current_future_node = 0,
      used_budget = 0, counter = 0\<rparr>"

text \<open>
  \<^verbatim>\<open>recv_from = [[]] * no_procs\<close>, then for every future node \<open>i\<close>
  \<^verbatim>\<open>recv_from[i] = [k for k in range(no_procs) if send_to[k] == i]\<close>.
\<close>

definition recv_from_of :: "nat \<Rightarrow> nat list \<Rightarrow> nat option list \<Rightarrow> nat list list" where
  "recv_from_of no_procs fnodes sto =
     fold (\<lambda>i rf. rf[i := filter (\<lambda>k. sto ! k = Some i) [0..<no_procs]]) fnodes
       (replicate no_procs [])"

text \<open>The plan of one level: future nodes, \<open>send_to\<close> and \<open>recv_from\<close>.\<close>

definition plan ::
  "nat list \<Rightarrow> int \<Rightarrow> int option \<Rightarrow> nat list \<Rightarrow>
   error + (nat list \<times> nat option list \<times> nat list list)" where
  "plan dims_global mmd nom active_nodes =
     (case sweep dims_global mmd nom active_nodes (sweep_init (length dims_global)) of
        Inl e \<Rightarrow> Inl e
      | Inr s \<Rightarrow>
          Inr (future_nodes s, send_to s,
               recv_from_of (length dims_global) (future_nodes s) (send_to s)))"

text \<open>The processes whose entry of \<open>send_to\<close> is the future node \<open>f\<close>: the members of
  \<^verbatim>\<open>recv_from[f]\<close>.\<close>

definition senders :: "nat option list \<Rightarrow> nat \<Rightarrow> nat set" where
  "senders sto f = {k. k < length sto \<and> sto ! k = Some f}"

text \<open>
  What holds between two passes of the sweep, \<open>seen\<close> being the active nodes already
  passed: the future nodes are distinct nodes among them; only such nodes send, and only to
  future nodes; every group of a future node with its senders is within the merge width
  and the merge count; and \<open>used_budget\<close> and \<open>counter\<close> bound the width and the size of
  the group of the current future node.
\<close>

definition sweep_inv ::
  "nat list \<Rightarrow> int \<Rightarrow> int option \<Rightarrow> nat set \<Rightarrow> sweep_state \<Rightarrow> bool" where
  "sweep_inv dims_global mmd nom seen s \<longleftrightarrow>
     length (send_to s) = length dims_global \<and>
     set (future_nodes s) \<subseteq> seen \<and> distinct (future_nodes s) \<and>
     current_future_node s \<in> set (future_nodes s) \<and>
     (\<forall>k f. k < length dims_global \<and> send_to s ! k = Some f \<longrightarrow>
        k \<in> seen \<and> f \<in> set (future_nodes s)) \<and>
     (\<forall>f \<in> set (future_nodes s).
        int (dims_global ! f + sum ((!) dims_global) (senders (send_to s) f)) \<le> mmd \<and>
        (\<forall>n. nom = Some n \<longrightarrow> 1 + int (card (senders (send_to s) f)) \<le> n)) \<and>
     dims_global ! current_future_node s
       + sum ((!) dims_global) (senders (send_to s) (current_future_node s)) \<le> used_budget s \<and>
     int (used_budget s) \<le> mmd \<and>
     1 + int (card (senders (send_to s) (current_future_node s))) \<le> counter s \<and>
     (\<forall>n. nom = Some n \<longrightarrow> counter s \<le> n)"

text \<open>The root of the final broadcasts of \<open>U\<close>, its shape and the squared error
  (\<^verbatim>\<open>root=0\<close>).\<close>

definition bcast_root :: nat where
  "bcast_root = 0"

text \<open>
  The active sets the level loop can go through on \<open>no_procs\<close> processes: it starts
  from all ranks, and goes on with the future nodes of a level whenever they are more than
  one, whatever widths the processes publish.
\<close>

inductive level_active :: "nat \<Rightarrow> nat list \<Rightarrow> bool" for no_procs :: nat where
  level0: "level_active no_procs [0..<no_procs]"
| next_level:
    "level_active no_procs active \<Longrightarrow> length dims_global = no_procs \<Longrightarrow>
     plan dims_global mmd nom active = Inr (fnodes, sto, rf) \<Longrightarrow> length fnodes \<noteq> 1 \<Longrightarrow>
     level_active no_procs fnodes"

section \<open>Reconstruction of V\<close>

text \<open>
  The post-processing divides by computed norms, and a real division by zero is not the
  machine's: the values it can produce are kept apart from the reals. \<open>1 / 0.0\<close> is
  \<open>+inf\<close>, and \<open>0 * inf\<close> is not a number.
\<close>

datatype fval = Fin real | PInf | NInf | NaN

text \<open>\<^verbatim>\<open>1 / sigma\<close>, entry by entry; the entries of \<open>sigma\<close> are norms.\<close>

definition recip :: "real \<Rightarrow> fval" where
  "recip s = (if s = 0 then PInf else Fin (1 / s))"

fun fmul :: "real \<Rightarrow> fval \<Rightarrow> fval" where
  "fmul v (Fin d) = Fin (v * d)"
| "fmul v PInf = (if v = 0 then NaN else if 0 < v then PInf else NInf)"
| "fmul v NInf = (if v = 0 then NaN else if 0 < v then NInf else PInf)"
| "fmul v NaN = NaN"

definition fdiv :: "real \<Rightarrow> real \<Rightarrow> fval" where
  "fdiv x y =
     (if y = 0 then (if x = 0 then NaN else if 0 < x then PInf else NInf) else Fin (x / y))"

definition fin_tensor :: "real tensor \<Rightarrow> fval tensor" where
  "fin_tensor T = \<lparr>nrows = nrows T, columns = map (map Fin) (columns T)\<rparr>"

definition dot :: "real list \<Rightarrow> real list \<Rightarrow> real" where
  "dot a b = sum_list (map2 (*) a b)"

text \<open>\<^verbatim>\<open>matmul(A.T, U)\<close>: entry \<open>(j, i)\<close> is the product of column \<open>j\<close> of \<open>A\<close> with
  column \<open>i\<close> of \<open>U\<close>.\<close>

definition matmul_T :: "real tensor \<Rightarrow> real tensor \<Rightarrow> real tensor" where
  "matmul_T A U =
     \<lparr>nrows = shape1 A, columns = map (\<lambda>u. map (\<lambda>a. dot a u) (columns A)) (columns U)\<rparr>"

text \<open>\<^verbatim>\<open>vector_norm(V, axis=0)\<close>: the norms of the columns.\<close>

definition col_norms :: "real tensor \<Rightarrow> real list" where
  "col_norms V = map norm2 (columns V)"

text \<open>
  \<^verbatim>\<open>matmul(V, diag(d))\<close> for a \<open>V\<close> of finite entries: column \<open>i\<close> of the product is
  column \<open>i\<close> of \<open>V\<close> times \<open>d\<^sub>i\<close> (the other summands are a finite entry times the zero
  off the diagonal).
\<close>

definition matmul_diag :: "real tensor \<Rightarrow> fval list \<Rightarrow> fval tensor" where
  "matmul_diag V d =
     \<lparr>nrows = nrows V, columns = map2 (\<lambda>c x. map (\<lambda>v. fmul v x) c) (columns V) d\<rparr>"

text \<open>
  The first lines of the post-processing of \<^verbatim>\<open>hsvd\<close>, on the whole matrix \<open>A\<close>:
  \<^verbatim>\<open>V = matmul(A.T, U); sigma = vector_norm(V, axis=0);\<close>
  \<^verbatim>\<open>if vector_norm(sigma) > 0: V = matmul(V, diag(1 / sigma))\<close>.
\<close>

definition reconstruct_V :: "real tensor \<Rightarrow> real tensor \<Rightarrow> fval tensor \<times> real list" where
  "reconstruct_V A U =
     (let V = matmul_T A U; sigma = col_norms V in
      if norm2 sigma > 0 then (matmul_diag V (map recip sigma), sigma)
      else (fin_tensor V, sigma))"

text \<open>What \<^verbatim>\<open>hsvd\<close> returns: four values or two.\<close>

datatype hsvd_result =
  Ret4 "fval tensor" "real list" "fval tensor" fval
| Ret2 "fval tensor" fval

definition postprocess ::
  "real tensor \<Rightarrow> bool \<Rightarrow> bool \<Rightarrow> real tensor \<Rightarrow> fval \<Rightarrow> hsvd_result" where
  "postprocess A transposeflag full U rel_error_estimate =
     (if transposeflag \<or> full then
        (let (V, sigma) = reconstruct_V A U in
         if transposeflag \<and> full then Ret4 V sigma (fin_tensor U) rel_error_estimate
         else if transposeflag \<and> \<not> full then Ret2 V rel_error_estimate
         else Ret4 (fin_tensor U) sigma V rel_error_estimate)
      else Ret2 (fin_tensor U) rel_error_estimate)"

section \<open>The driver\<close>

text \<open>\<^verbatim>\<open>A.T\<close>: the shape is reversed, the split axis changes side and every local block is
  transposed.\<close>

definition transpose_tensor :: "'a tensor \<Rightarrow> 'a tensor" where
  "transpose_tensor T =
     \<lparr>nrows = shape1 T, columns = map (\<lambda>i. map (\<lambda>c. c ! i) (columns T)) [0..<nrows T]\<rparr>"

definition transpose_dnd :: "dndarray \<Rightarrow> dndarray" where
  "transpose_dnd A =
     A\<lparr>gshape := rev (gshape A), split := map_option (\<lambda>ax. 1 - ax) (split A),
       larrays := map transpose_tensor (larrays A)\<rparr>"

text \<open>\<^verbatim>\<open>torch.hstack\<close> of blocks with the same number of rows.\<close>

definition hstack :: "'a tensor list \<Rightarrow> 'a tensor" where
  "hstack Ts =
     \<lparr>nrows = (case Ts of [] \<Rightarrow> 0 | T # _ \<Rightarrow> nrows T), columns = concat (map columns Ts)\<rparr>"

text \<open>
  The whole matrix of an array that is not split along its rows: the local blocks side by
  side, or the block every process holds when the array is not split at all.
\<close>

definition garray :: "dndarray \<Rightarrow> real tensor" where
  "garray A =
     (case split A of
        None \<Rightarrow> (case larrays A of [] \<Rightarrow> hstack [] | T # _ \<Rightarrow> T)
      | Some _ \<Rightarrow> hstack (larrays A))"

text \<open>\<^verbatim>\<open>vector_norm(A)\<close>: the Frobenius norm.\<close>

definition vector_norm :: "real tensor \<Rightarrow> real" where
  "vector_norm T = norm2 (concat (columns T))"

text \<open>\<^verbatim>\<open>torch.linalg.matmul(U_loc, torch.diag(sigma_loc))\<close>.\<close>

definition scale_columns :: "real tensor \<Rightarrow> real list \<Rightarrow> real tensor" where
  "scale_columns U sigma =
     \<lparr>nrows = nrows U, columns = map2 (\<lambda>c x. map (\<lambda>v. v * x) c) (columns U) sigma\<rparr>"

text \<open>
  The variables of one process that the level loop changes. \<open>safetyshift\<close> is among
  them: a future node sets it to zero on the last level.
\<close>

record proc_state =
  U_loc :: "real tensor"
  err_squared_loc :: real
  shift :: int

text \<open>The first failure among the processes, or all their results.\<close>

fun collect :: "(error + 'a) list \<Rightarrow> error + 'a list" where
  "collect [] = Inr []"
| "collect (x # xs) =
     (case x of
        Inl e \<Rightarrow> Inl e
      | Inr v \<Rightarrow> (case collect xs of Inl e \<Rightarrow> Inl e | Inr vs \<Rightarrow> Inr (v # vs)))"

text \<open>
  One level on process \<open>r\<close>. A future node receives the factors and squared errors of
  \<^verbatim>\<open>recv_from[r]\<close>, stacks them behind its own, truncates (with no safety shift when one
  future node is left) and adds the new squared error. An active node that is no future
  node sends to \<^verbatim>\<open>send_to[r]\<close>, which fails when that entry was never assigned. Every
  other process does nothing.
\<close>

definition rank_step ::
  "(real tensor \<Rightarrow> real tensor \<times> real list) \<Rightarrow> dtype \<Rightarrow> int \<Rightarrow> real option \<Rightarrow>
   nat list \<Rightarrow> nat list \<Rightarrow> nat option list \<Rightarrow> nat list list \<Rightarrow> proc_state list \<Rightarrow> nat \<Rightarrow>
   error + proc_state" where
  "rank_step svd dt maxrank loctol active_nodes fnodes sto rf procs r =
     (if r \<in> set fnodes then
        (let p = procs ! r;
             err = sum_list (err_squared_loc p # map (\<lambda>i. err_squared_loc (procs ! i)) (rf ! r));
             U = hstack (U_loc p # map (\<lambda>i. U_loc (procs ! i)) (rf ! r));
             safetyshift = (if length fnodes = 1 then 0 else shift p)
         in case compute_local_truncated_svd svd dt U maxrank loctol safetyshift of
              Inl e \<Rightarrow> Inl e
            | Inr (U', sigma', err_new) \<Rightarrow>
                Inr \<lparr>U_loc = (if length fnodes > 1 then scale_columns U' sigma' else U'),
                     err_squared_loc = err + err_new, shift = safetyshift\<rparr>)
      else if r \<in> set active_nodes \<and> r \<notin> set fnodes then
        (case sto ! r of None \<Rightarrow> Inl TypeError | Some dest \<Rightarrow> Inr (procs ! r))
      else Inr (procs ! r))"

text \<open>
  The level loop \<^verbatim>\<open>while not finished\<close>, all processes at once: the widths are
  published, every process computes the same plan and takes its step. The loop need not
  end (the future nodes can stay the active nodes for ever), so it runs on fuel and
  \<open>None\<close> says that the fuel ran out.
\<close>

fun hsvd_loop ::
  "nat \<Rightarrow> (real tensor \<Rightarrow> real tensor \<times> real list) \<Rightarrow> dtype \<Rightarrow> hsvd_args \<Rightarrow>
   real option \<Rightarrow> nat list \<Rightarrow> proc_state list \<Rightarrow> (error + proc_state list) option" where
  "hsvd_loop 0 svd dt args loctol active_nodes procs = None"
| "hsvd_loop (Suc fuel) svd dt args loctol active_nodes procs =
     (let dims_global = map (\<lambda>p. shape1 (U_loc p)) procs in
      case plan dims_global (kw_maxmergedim args) (kw_no_of_merges args) active_nodes of
        Inl e \<Rightarrow> Some (Inl e)
      | Inr (fnodes, sto, rf) \<Rightarrow>
          (case collect (map (rank_step svd dt (kw_maxrank args) loctol active_nodes
                                fnodes sto rf procs) [0..<length procs]) of
             Inl e \<Rightarrow> Some (Inl e)
           | Inr procs' \<Rightarrow>
               if length fnodes = 1 then Some (Inr procs')
               else hsvd_loop fuel svd dt args loctol fnodes procs'))"

text \<open>
  \<^verbatim>\<open>hsvd\<close> with \<open>maxrank\<close> and \<open>maxmergedim\<close> given, as both gates call it. The local
  tolerance is \<^verbatim>\<open>Anorm * rtol / sqrt(2 * no_procs - 1)\<close>; the relative error estimate is
  \<^verbatim>\<open>err_squared_loc ** 0.5 / Anorm\<close> of the broadcast root.
\<close>

definition hsvd ::
  "(real tensor \<Rightarrow> real tensor \<times> real list) \<Rightarrow> nat \<Rightarrow> dndarray \<Rightarrow> hsvd_args \<Rightarrow>
   (error + hsvd_result) option" where
  "hsvd svd fuel A0 args =
     (let transposeflag = (split A0 = Some 0);
          A = (if transposeflag then transpose_dnd A0 else A0);
          no_procs = length (larrays A);
          Anorm = vector_norm (garray A);
          loctol = map_option (\<lambda>rt. Anorm * rt / sqrt (2 * real no_procs - 1)) (kw_rtol args)
      in case collect (map (\<lambda>T. compute_local_truncated_svd svd (dtype A) T (kw_maxrank args)
                                  loctol (kw_safetyshift args)) (larrays A)) of
           Inl e \<Rightarrow> Some (Inl e)
         | Inr locs \<Rightarrow>
             (case hsvd_loop fuel svd (dtype A) args loctol [0..<no_procs]
                     (map (\<lambda>(U, sigma, e).
                             \<lparr>U_loc = scale_columns U sigma, err_squared_loc = e,
                              shift = kw_safetyshift args\<rparr>) locs) of
                None \<Rightarrow> None
              | Some (Inl e) \<Rightarrow> Some (Inl e)
              | Some (Inr procs) \<Rightarrow>
                  Some (Inr (postprocess (garray A) transposeflag (kw_full args)
                               (U_loc (procs ! bcast_root))
                               (fdiv (sqrt (err_squared_loc (procs ! bcast_root))) Anorm)))))"

text \<open>
  A thin SVD for the matrices of the examples: when the columns of \<open>M\<close> are non-zero,
  pairwise orthogonal and ordered by non-increasing norm (a diagonal matrix with
  decreasing positive entries, or its first columns), its singular values are the norms of
  the columns and its left factor has the normalised columns. The backend returns these
  factors on such a matrix, up to the signs of the columns.
\<close>

definition column_svd :: "real tensor \<Rightarrow> real tensor \<times> real list" where
  "column_svd M =
     (\<lparr>nrows = nrows M, columns = map (\<lambda>c. map (\<lambda>x. x / norm2 c) c) (columns M)\<rparr>,
      map norm2 (columns M))"

text \<open>
  A thin SVD for a diagonal matrix with non-negative, non-increasing diagonal entries
  (zeros among them allowed): the left factor has the first unit vectors as columns and
  the singular values are the diagonal entries.
\<close>

definition diagonal_svd :: "real tensor \<Rightarrow> real tensor \<times> real list" where
  "diagonal_svd M =
     (\<lparr>nrows = nrows M,
       columns = map (\<lambda>i. map (\<lambda>j. if j = i then 1 else 0) [0..<nrows M]) [0..<shape1 M]\<rparr>,
      map (\<lambda>i. columns M ! i ! i) [0..<shape1 M])"

section \<open>Properties of the local truncation\<close>

lemma norm2_squared: "(norm2 xs)\<^sup>2 = sum_list (map (\<lambda>x. x\<^sup>2) xs)"
  unfolding norm2_def by (auto intro!: sum_list_nonneg)

lemmas clts_eval = compute_local_truncated_svd_def noiselevel_def argwhere_ge_def
  argwhere_less_def ideal_trunc_rank_def tail_norms_squared_def upt_conv_Cons Let_def
  slice_from_def slice_to_def col_slice_to_def norm2_squared zeros_def

lemma argwhere_ge_empty_iff:
  "argwhere_ge v c = [] \<longleftrightarrow> (\<forall>i < length v. v ! i < c)"
  unfolding argwhere_ge_def by (auto simp: filter_empty_conv not_le)

text \<open>
  C6. When no singular value reaches the noise level (\<open>1e-14\<close> for float64, \<open>1e-7\<close> for
  float32), the function returns, without raising, a zero \<open>U\<close> of shape \<open>(m, 1)\<close>, where
  \<open>m\<close> is the row count of the input, which the thin SVD keeps, together with
  \<open>\<sigma> = [0]\<close> and the squared norm of all singular values as \<open>e\<^sup>2\<close>.
\<close>

theorem degenerate_all_noise:
  assumes "svd M = (U_f, sigma_f)" and "nrows U_f = nrows M"
    and "dt = Float64 \<and> nl = 1 / 10 ^ 14 \<or> dt = Float32 \<and> nl = 1 / 10 ^ 7"
    and "list_all (\<lambda>s. s < nl) sigma_f"
  shows "compute_local_truncated_svd svd dt M maxrank loctol safetyshift =
           Inr (\<lparr>nrows = nrows M, columns = [replicate (nrows M) 0]\<rparr>, [0],
                (norm2 sigma_f)\<^sup>2)"
proof -
  have nl: "noiselevel dt = Inr nl"
    using assms(3) by (auto simp: noiselevel_def)
  have "\<forall>i < length sigma_f. sigma_f ! i < nl"
    using assms(4) by (simp add: list_all_length)
  then have "argwhere_ge sigma_f nl = []"
    by (simp add: argwhere_ge_empty_iff)
  then show ?thesis
    using assms(1,2) nl
    by (simp add: compute_local_truncated_svd_def zeros_def)
qed

theorem degenerate_all_noise_witness:
  "compute_local_truncated_svd (\<lambda>_. (\<lparr>nrows = 2, columns = [[1, 0]]\<rparr>, [1 / 10 ^ 15])) Float64
     \<lparr>nrows = 2, columns = [[1 / 10 ^ 15, 0]]\<rparr> 3 None 5 =
   Inr (\<lparr>nrows = 2, columns = [replicate 2 0]\<rparr>, [0], (norm2 [1 / 10 ^ 15])\<^sup>2)"
  using degenerate_all_noise [of "\<lambda>_. (\<lparr>nrows = 2, columns = [[1, 0]]\<rparr>, [1 / 10 ^ 15])"
      "\<lparr>nrows = 2, columns = [[1 / 10 ^ 15, 0]]\<rparr>" "\<lparr>nrows = 2, columns = [[1, 0]]\<rparr>"
      "[1 / 10 ^ 15]" Float64 "1 / 10 ^ 14" 3 None 5]
  by simp

text \<open>
  C1. The squared error is the norm of the tail that starts at
  \<^verbatim>\<open>loc_trunc_rank - safetyshift\<close>, with \<open>loc_trunc_rank\<close> already cut down to the number
  of singular values. That is the base rank only as long as base rank plus safety shift
  stays within that number. Here the singular values are \<open>3, 2, 1\<close>, \<open>maxrank = 2\<close>,
  no tolerance and \<open>safetyshift = 5\<close>: the base rank is \<open>2\<close> and the tail from it has
  squared norm \<open>1\<close>, but the rank is cut to \<open>3\<close>, the tail starts at index \<open>3 - 5 = -2\<close>,
  which Python counts from the end, and the function returns \<open>2\<^sup>2 + 1\<^sup>2 = 5\<close>.
\<close>

theorem error_tail_under_clamped_safetyshift:
  "compute_local_truncated_svd
     (\<lambda>_. (\<lparr>nrows = 3, columns = [[1, 0, 0], [0, 1, 0], [0, 0, 1]]\<rparr>, [3, 2, 1])) Float64
     \<lparr>nrows = 3, columns = [[3, 0, 0], [0, 2, 0], [0, 0, 1]]\<rparr> 2 None 5 =
   Inr (\<lparr>nrows = 3, columns = [[1, 0, 0], [0, 1, 0], [0, 0, 1]]\<rparr>, [3, 2, 1], 5)
   \<and> (norm2 (slice_from [3, 2, 1] 2))\<^sup>2 = 1"
  by (simp add: clts_eval)

text \<open>
  C7. With \<open>loctol = 0\<close> no tail, not even the empty one, has a squared norm below
  \<open>loctol\<^sup>2\<close>: the search takes \<^verbatim>\<open>min\<close> of an empty sequence and raises ValueError,
  and so does the local truncation of a matrix with the singular value \<open>1\<close>; the rank
  does not default to the number of singular values.
\<close>

theorem ideal_rank_zero_tolerance_raises:
  "ideal_trunc_rank [1] 0 = Inl ValueError
   \<and> compute_local_truncated_svd (\<lambda>_. (\<lparr>nrows = 1, columns = [[1]]\<rparr>, [1])) Float64
       \<lparr>nrows = 1, columns = [[1]]\<rparr> 1 (Some 0) 0 = Inl ValueError"
  by (simp add: clts_eval)

section \<open>Properties of the gates\<close>

lemmas gate_eval = hsvd_rank_gate_def hsvd_rtol_gate_def ndim_def lshape_map_def shape1_def

text \<open>
  C3. Two processes hold 12 columns each, \<open>maxrank = 1\<close>, \<open>safetyshift = 5\<close> and no
  \<open>maxmergedim\<close>: the widest local block has exactly \<open>2 * (maxrank + safetyshift) = 12\<close>
  columns, and \<^verbatim>\<open>hsvd_rank\<close> passes \<open>maxmergedim = 12\<close> to \<^verbatim>\<open>hsvd\<close>, not
  \<open>max(12, 13) = 13\<close>. The same value given by the caller is refused by \<^verbatim>\<open>hsvd_rank\<close>
  as too small, and \<^verbatim>\<open>hsvd_rtol\<close>, which computes the same default before its check,
  refuses its own default.
\<close>

theorem default_maxmergedim_at_boundary:
  "hsvd_rank_gate
     (DND \<lparr>gshape = [4, 24], dtype = Float64, split = Some 1,
           larrays = [zeros 4 12, zeros 4 12]\<rparr>) 1 False None 5 =
   Inr (\<lparr>gshape = [4, 24], dtype = Float64, split = Some 1,
         larrays = [zeros 4 12, zeros 4 12]\<rparr>,
        \<lparr>kw_maxrank = 1, kw_maxmergedim = 12, kw_rtol = None, kw_safetyshift = 5,
         kw_no_of_merges = None, kw_full = False\<rparr>)
   \<and> max (12::int) (2 * (1 + 5) + 1) = 13
   \<and> hsvd_rank_gate
     (DND \<lparr>gshape = [4, 24], dtype = Float64, split = Some 1,
           larrays = [zeros 4 12, zeros 4 12]\<rparr>) 1 False (Some 12) 5 = Inl RuntimeError
   \<and> hsvd_rtol_gate
     (DND \<lparr>gshape = [4, 24], dtype = Float64, split = Some 1,
           larrays = [zeros 4 12, zeros 4 12]\<rparr>) (1 / 10) False (Some 1) None 5 None =
     Inl ValueError"
  by (simp add: gate_eval zeros_def)

text \<open>
  \<^verbatim>\<open>hsvd_rank\<close> has no check of the sign of \<open>maxrank\<close>: for every \<open>maxrank \<le> 0\<close>, on a
  two-dimensional float32 or float64 array and with \<open>maxmergedim\<close> unset or at least
  \<open>2 * (maxrank + safetyshift) + 1\<close>, it raises nothing and calls \<^verbatim>\<open>hsvd\<close> with that
  \<open>maxrank\<close>.
\<close>

lemma hsvd_rank_gate_unchecked_maxrank:
  assumes "maxrank \<le> 0"
    and "ndim A = 2" and "dtype A = Float32 \<or> dtype A = Float64" and "larrays A \<noteq> []"
    and "mmd = None \<or> (\<exists>m. mmd = Some m \<and> 2 * (maxrank + safetyshift) + 1 \<le> m)"
  shows "\<exists>args. hsvd_rank_gate (DND A) maxrank full mmd safetyshift = Inr (A, args)
           \<and> kw_maxrank args = maxrank"
proof -
  obtain T Ts where "larrays A = T # Ts"
    using assms(4) by (cases "larrays A") auto
  then have "\<exists>L. py_max (map (\<lambda>s. int (snd s)) (lshape_map A)) = Inr L"
    by (simp add: lshape_map_def)
  then show ?thesis
    using assms(2,3,5) by (auto simp: hsvd_rank_gate_def)
qed

section \<open>Well-formedness of the local truncation\<close>

lemma py_min_eq: "xs \<noteq> [] \<Longrightarrow> py_min xs = Inr (Min (set xs))"
  by (cases xs) (simp_all add: Min.set_eq_fold [symmetric])

lemma py_max_eq: "xs \<noteq> [] \<Longrightarrow> py_max xs = Inr (Max (set xs))"
  by (cases xs) (simp_all add: Max.set_eq_fold [symmetric])

lemma py_min_empty: "py_min xs = Inl e \<longleftrightarrow> xs = [] \<and> e = ValueError"
  by (cases xs) auto

lemma argwhere_ge_nonneg: "k \<in> set (argwhere_ge v c) \<Longrightarrow> 0 \<le> k"
  by (auto simp: argwhere_ge_def)

lemma argwhere_less_nonneg: "k \<in> set (argwhere_less v c) \<Longrightarrow> 0 \<le> k"
  by (auto simp: argwhere_less_def)

lemma cut_noise_rank_pos:
  assumes "argwhere_ge v c \<noteq> []"
  shows "\<exists>mx. py_max (argwhere_ge v c) = Inr mx \<and> 0 \<le> mx"
proof -
  have "Max (set (argwhere_ge v c)) \<in> set (argwhere_ge v c)"
    using assms by (intro Max_in) auto
  then have "0 \<le> Max (set (argwhere_ge v c))"
    by (rule argwhere_ge_nonneg)
  then show ?thesis
    using assms by (simp add: py_max_eq)
qed

lemma last_tail_is_candidate:
  assumes "tol \<noteq> 0"
  shows "int (length sigma) \<in> set (argwhere_less (tail_norms_squared sigma) (tol\<^sup>2))"
proof -
  have "(norm2 (slice_from sigma (int (length sigma))))\<^sup>2 = 0"
    by (simp add: slice_from_def norm2_def)
  moreover have "(0::real) < tol\<^sup>2"
    using assms by simp
  ultimately show ?thesis
    unfolding argwhere_less_def tail_norms_squared_def
    by (auto simp: nth_append image_iff intro!: bexI [of _ "length sigma"])
qed

lemma ideal_trunc_rank_returns:
  assumes "tol \<noteq> 0"
  shows "\<exists>itr. ideal_trunc_rank sigma tol = Inr itr \<and> 0 \<le> itr \<and> itr \<le> int (length sigma)"
proof -
  let ?c = "argwhere_less (tail_norms_squared sigma) (tol\<^sup>2)"
  have mem: "int (length sigma) \<in> set ?c"
    using assms by (rule last_tail_is_candidate)
  then have ne: "?c \<noteq> []" by auto
  have "Min (set ?c) \<in> set ?c"
    using ne by (intro Min_in) auto
  then have "0 \<le> Min (set ?c)"
    by (rule argwhere_less_nonneg)
  moreover have "Min (set ?c) \<le> int (length sigma)"
    using mem by (intro Min_le) auto
  ultimately show ?thesis
    using ne by (simp add: ideal_trunc_rank_def py_min_eq)
qed

lemma ideal_trunc_rank_nonneg:
  "ideal_trunc_rank sigma tol = Inr itr \<Longrightarrow> 0 \<le> itr"
proof -
  assume a: "ideal_trunc_rank sigma tol = Inr itr"
  let ?c = "argwhere_less (tail_norms_squared sigma) (tol\<^sup>2)"
  have ne: "?c \<noteq> []"
    using a by (auto simp: ideal_trunc_rank_def)
  then have "itr = Min (set ?c)"
    using a by (simp add: ideal_trunc_rank_def py_min_eq)
  moreover have "Min (set ?c) \<in> set ?c"
    using ne by (intro Min_in) auto
  ultimately show ?thesis
    by (auto dest: argwhere_less_nonneg)
qed

lemma slice_to_length:
  "0 \<le> k \<Longrightarrow> k \<le> int (length xs) \<Longrightarrow> length (slice_to xs k) = nat k"
  by (simp add: slice_to_def)

text \<open>
  C10. For an input of shape \<open>(m, c)\<close> with \<open>m, c \<ge> 1\<close>, whose thin SVD has
  \<open>min(m, c)\<close> singular values and as many columns in its left factor, and for
  \<open>maxrank \<ge> 1\<close>, \<open>safetyshift \<ge> 0\<close> and element type float32 or float64: the function
  returns whenever \<open>loctol\<close> is unset or not zero, and whatever it returns is well formed:
  \<open>\<sigma>\<close> has as many entries as \<open>U\<close> has columns, \<open>U\<close> keeps the \<open>m\<close> rows, that width is
  at most \<open>min(min(m, c), maxrank + safetyshift)\<close>, and \<open>e\<^sup>2 \<ge> 0\<close>.
\<close>

theorem local_truncation_well_formed:
  assumes "svd M = (U_f, sigma_f)"
    and "nrows M = m" and "shape1 M = c" and "1 \<le> m" and "1 \<le> c"
    and "nrows U_f = m" and "shape1 U_f = length sigma_f" and "length sigma_f = min m c"
    and "1 \<le> maxrank" and "0 \<le> safetyshift"
    and "dt = Float32 \<or> dt = Float64"
  shows "(loctol \<noteq> Some 0 \<longrightarrow>
           (\<exists>r. compute_local_truncated_svd svd dt M maxrank loctol safetyshift = Inr r))
       \<and> (\<forall>U s e. compute_local_truncated_svd svd dt M maxrank loctol safetyshift = Inr (U, s, e)
             \<longrightarrow> shape1 U = length s \<and> nrows U = m
               \<and> int (length s) \<le> min (int (min m c)) (maxrank + safetyshift) \<and> 0 \<le> e)"
proof -
  have "noiselevel dt = Inr (if dt = Float64 then 1 / 10 ^ 14 else 1 / 10 ^ 7)"
    using assms(11) by (auto simp: noiselevel_def)
  then obtain nl where nl: "noiselevel dt = Inr nl" ..
  show ?thesis
  proof (cases "argwhere_ge sigma_f nl = []")
    case True
    then show ?thesis
      using assms nl
      by (simp add: compute_local_truncated_svd_def zeros_def shape1_def)
  next
    case False
    then obtain mx where mx: "py_max (argwhere_ge sigma_f nl) = Inr mx" "0 \<le> mx"
      using cut_noise_rank_pos by blast
    have wf: "shape1 (col_slice_to U_f k) = length (slice_to sigma_f k)
        \<and> nrows (col_slice_to U_f k) = m
        \<and> int (length (slice_to sigma_f k)) \<le> min (int (min m c)) (maxrank + safetyshift)
        \<and> 0 \<le> (norm2 (slice_from sigma_f (k - safetyshift)))\<^sup>2"
      if "k = min (int (length sigma_f)) (b + safetyshift)" "0 \<le> b" "b \<le> maxrank" for k b
    proof -
      have k: "0 \<le> k" "k \<le> int (length sigma_f)" "k \<le> maxrank + safetyshift"
        using that assms(10) by auto
      then have "length (slice_to sigma_f k) = nat k"
        and "length (slice_to (columns U_f) k) = nat k"
        using assms(7) by (simp_all add: slice_to_def shape1_def)
      then show ?thesis
        using k assms(6,8) by (simp add: col_slice_to_def shape1_def)
    qed
    show ?thesis
    proof (cases loctol)
      case None
      then show ?thesis
        using assms(1) nl False mx wf [of _ "min maxrank (mx + 1)"] assms(9)
        by (simp add: compute_local_truncated_svd_def Let_def)
    next
      case (Some tol)
      show ?thesis
      proof (cases "ideal_trunc_rank sigma_f tol")
        case (Inl e)
        then have "tol = 0"
          using ideal_trunc_rank_returns [of tol sigma_f] by auto
        then show ?thesis
          using assms(1) nl False mx Some Inl
          by (simp add: compute_local_truncated_svd_def)
      next
        case (Inr itr)
        then have "0 \<le> itr" by (rule ideal_trunc_rank_nonneg)
        then show ?thesis
          using assms(1) nl False mx Some Inr wf [of _ "min maxrank (min itr (mx + 1))"] assms(9)
          by (simp add: compute_local_truncated_svd_def Let_def)
      qed
    qed
  qed
qed


theorem local_truncation_well_formed_witness:
  "\<exists>U s e. compute_local_truncated_svd
       (\<lambda>_. (\<lparr>nrows = 3, columns = [[1, 0, 0], [0, 1, 0], [0, 0, 1]]\<rparr>, [3, 2, 1])) Float64
       \<lparr>nrows = 3, columns = [[3, 0, 0], [0, 2, 0], [0, 0, 1]]\<rparr> 2 (Some 2) 5 = Inr (U, s, e)
     \<and> shape1 U = length s \<and> nrows U = 3
     \<and> int (length s) \<le> min (int (min 3 3)) (2 + 5) \<and> 0 \<le> e"
  using local_truncation_well_formed
    [of "\<lambda>_. (\<lparr>nrows = 3, columns = [[1, 0, 0], [0, 1, 0], [0, 0, 1]]\<rparr>, [3, 2, 1])"
      "\<lparr>nrows = 3, columns = [[3, 0, 0], [0, 2, 0], [0, 0, 1]]\<rparr>"
      "\<lparr>nrows = 3, columns = [[1, 0, 0], [0, 1, 0], [0, 0, 1]]\<rparr>" "[3, 2, 1]" 3 3 2 5 Float64
      "Some 2"]
  by (auto simp: shape1_def)

section \<open>Properties of the reconstruction of V\<close>







section \<open>Properties of the merging tree\<close>

lemma finite_senders [simp]: "finite (senders sto f)"
  by (simp add: senders_def)

lemma senders_update:
  assumes "c < length sto" and "sto ! c = None"
  shows "senders (sto[c := Some g]) f = (if f = g then insert c (senders sto f) else senders sto f)"
  using assms by (auto simp: senders_def nth_list_update)

lemma not_in_senders: "sto ! c = None \<Longrightarrow> c \<notin> senders sto f"
  by (simp add: senders_def)

lemma sweep_inv_step:
  assumes inv: "sweep_inv dims_global mmd nom seen s"
    and new: "a \<notin> seen" and rng: "a < length dims_global"
    and width: "int (dims_global ! a) \<le> mmd"
  shows "\<exists>s'. sweep_step dims_global mmd nom s a = Inr s'
           \<and> sweep_inv dims_global mmd nom (insert a seen) s'"
proof -
  let ?d = dims_global
  have len: "length (send_to s) = length ?d"
    and fn: "set (future_nodes s) \<subseteq> seen"
    and dist: "distinct (future_nodes s)"
    and cf: "current_future_node s \<in> set (future_nodes s)"
    and snd: "\<And>k f. k < length ?d \<Longrightarrow> send_to s ! k = Some f \<Longrightarrow> k \<in> seen \<and> f \<in> set (future_nodes s)"
    and grp: "\<And>f. f \<in> set (future_nodes s) \<Longrightarrow>
        int (?d ! f + sum ((!) ?d) (senders (send_to s) f)) \<le> mmd \<and>
        (\<forall>n. nom = Some n \<longrightarrow> 1 + int (card (senders (send_to s) f)) \<le> n)"
    and used: "?d ! current_future_node s
       + sum ((!) ?d) (senders (send_to s) (current_future_node s)) \<le> used_budget s"
    and budget: "int (used_budget s) \<le> mmd"
    and cnt: "1 + int (card (senders (send_to s) (current_future_node s))) \<le> counter s"
    and cap: "\<And>n. nom = Some n \<Longrightarrow> counter s \<le> n"
    using inv unfolding sweep_inv_def by blast+
  have a_none: "send_to s ! a = None"
    using snd [OF rng] new by (cases "send_to s ! a") auto
  have a_not_fn: "a \<notin> set (future_nodes s)"
    using fn new by auto
  have no_senders_a: "senders (send_to s) a = {}"
    using snd a_not_fn by (auto simp: senders_def len)
  show ?thesis
  proof (cases "int (used_budget s + ?d ! a) > mmd \<or> Some (counter s) = nom")
    case True
    let ?s' = "s\<lparr>current_future_node := a, future_nodes := future_nodes s @ [a],
                  used_budget := ?d ! a, counter := 1\<rparr>"
    have step: "sweep_step ?d mmd nom s a = Inr ?s'"
      using True rng by (simp add: sweep_step_def)
    have one: "\<And>n. nom = Some n \<Longrightarrow> 1 \<le> n"
      using cap cnt by fastforce
    have "sweep_inv ?d mmd nom (insert a seen) ?s'"
      unfolding sweep_inv_def
      using len fn dist a_not_fn snd grp width no_senders_a one by auto
    then show ?thesis using step by blast
  next
    case False
    then have fits: "int (used_budget s + ?d ! a) \<le> mmd" and neq: "Some (counter s) \<noteq> nom"
      by auto
    have cap': "\<And>n. nom = Some n \<Longrightarrow> counter s + 1 \<le> n"
      using cap neq by fastforce
    show ?thesis
    proof (cases "used_budget s = 0")
      case True
      let ?s' = "s\<lparr>send_to := send_to s, used_budget := used_budget s + ?d ! a,
                    counter := counter s + 1\<rparr>"
      have step: "sweep_step ?d mmd nom s a = Inr ?s'"
        using False True rng by (simp add: sweep_step_def)
      have "sweep_inv ?d mmd nom (insert a seen) ?s'"
        unfolding sweep_inv_def
        using len fn dist cf snd grp used fits cnt cap' by auto
      then show ?thesis using step by blast
    next
      case nz: False
      let ?g = "current_future_node s"
      let ?sto = "(send_to s)[a := Some ?g]"
      let ?s' = "s\<lparr>send_to := ?sto, used_budget := used_budget s + ?d ! a,
                    counter := counter s + 1\<rparr>"
      have step: "sweep_step ?d mmd nom s a = Inr ?s'"
        using False nz rng by (simp add: sweep_step_def)
      have upd: "\<And>f. senders ?sto f = (if f = ?g then insert a (senders (send_to s) f)
                                         else senders (send_to s) f)"
        using senders_update [of a "send_to s"] rng len a_none by simp
      have notin: "\<And>f. a \<notin> senders (send_to s) f"
        using a_none by (rule not_in_senders)
      have sum_g: "sum ((!) ?d) (senders ?sto ?g) = ?d ! a + sum ((!) ?d) (senders (send_to s) ?g)"
        using upd notin by simp
      have card_g: "card (senders ?sto ?g) = Suc (card (senders (send_to s) ?g))"
        using upd notin by simp
      have load_g: "?d ! ?g + sum ((!) ?d) (senders ?sto ?g) \<le> used_budget s + ?d ! a"
        using sum_g used by linarith
      have load_g_int: "int (?d ! ?g + sum ((!) ?d) (senders ?sto ?g)) \<le> mmd"
        using load_g fits by linarith
      have size_g: "1 + int (card (senders ?sto ?g)) \<le> counter s + 1"
        using card_g cnt by linarith
      have other: "\<And>f. f \<noteq> ?g \<Longrightarrow> senders ?sto f = senders (send_to s) f"
        using upd by simp
      have snd': "\<And>k f. k < length ?d \<Longrightarrow> ?sto ! k = Some f \<Longrightarrow>
                    k \<in> insert a seen \<and> f \<in> set (future_nodes s)"
      proof -
        fix k f assume k: "k < length ?d" and kf: "?sto ! k = Some f"
        show "k \<in> insert a seen \<and> f \<in> set (future_nodes s)"
        proof (cases "k = a")
          case True
          then show ?thesis using kf k len cf by simp
        next
          case False
          then show ?thesis using kf k snd [of k f] by simp
        qed
      qed
      have grp': "\<And>f. f \<in> set (future_nodes s) \<Longrightarrow>
        int (?d ! f + sum ((!) ?d) (senders ?sto f)) \<le> mmd \<and>
        (\<forall>n. nom = Some n \<longrightarrow> 1 + int (card (senders ?sto f)) \<le> n)"
      proof -
        fix f assume f: "f \<in> set (future_nodes s)"
        show "int (?d ! f + sum ((!) ?d) (senders ?sto f)) \<le> mmd \<and>
          (\<forall>n. nom = Some n \<longrightarrow> 1 + int (card (senders ?sto f)) \<le> n)"
        proof (cases "f = ?g")
          case True
          then show ?thesis
            using load_g_int size_g cap' by fastforce
        next
          case False
          then show ?thesis
            using other grp [OF f] by simp
        qed
      qed
      have "sweep_inv ?d mmd nom (insert a seen) ?s'"
        unfolding sweep_inv_def
        using len fn dist cf snd' grp' load_g size_g fits cap' by auto
      then show ?thesis using step by blast
    qed
  qed
qed

lemma sweep_inv_sweep:
  assumes "sweep_inv dims_global mmd nom seen s"
    and "distinct as" and "set as \<inter> seen = {}"
    and "\<forall>a \<in> set as. a < length dims_global \<and> int (dims_global ! a) \<le> mmd"
  shows "\<exists>s'. sweep dims_global mmd nom as s = Inr s'
           \<and> sweep_inv dims_global mmd nom (seen \<union> set as) s'"
  using assms
proof (induction as arbitrary: s seen)
  case Nil
  then show ?case by simp
next
  case (Cons a as)
  from Cons.prems obtain s1 where
    s1: "sweep_step dims_global mmd nom s a = Inr s1"
      "sweep_inv dims_global mmd nom (insert a seen) s1"
    using sweep_inv_step [of dims_global mmd nom seen s a] by auto
  have "\<exists>s'. sweep dims_global mmd nom as s1 = Inr s'
           \<and> sweep_inv dims_global mmd nom (insert a seen \<union> set as) s'"
    using Cons.prems s1(2) by (intro Cons.IH) auto
  then show ?case
    using s1(1) by auto
qed

lemma senders_replicate_None [simp]: "senders (replicate n None) f = {}"
  by (auto simp: senders_def)

lemma sweep_step_future_nodes:
  assumes "sweep_step dims_global mmd nom s a = Inr s'"
  shows "\<exists>ys. future_nodes s' = future_nodes s @ ys \<and> set ys \<subseteq> {a}"
  using assms by (auto simp: sweep_step_def split: if_splits)

lemma sweep_future_nodes:
  assumes "sweep dims_global mmd nom as s = Inr s'"
  shows "\<exists>ys. future_nodes s' = future_nodes s @ ys \<and> set ys \<subseteq> set as"
  using assms
proof (induction as arbitrary: s)
  case Nil
  then show ?case by simp
next
  case (Cons a as)
  then obtain s1 where s1: "sweep_step dims_global mmd nom s a = Inr s1"
      and rest: "sweep dims_global mmd nom as s1 = Inr s'"
    by (auto split: sum.splits)
  obtain ys where ys: "future_nodes s1 = future_nodes s @ ys" "set ys \<subseteq> {a}"
    using sweep_step_future_nodes [OF s1] by blast
  obtain zs where zs: "future_nodes s' = future_nodes s1 @ zs" "set zs \<subseteq> set as"
    using Cons.IH [OF rest] by blast
  have "future_nodes s' = future_nodes s @ (ys @ zs)" "set (ys @ zs) \<subseteq> set (a # as)"
    using ys zs by auto
  then show ?case by blast
qed

lemma plan_future_nodes:
  assumes "plan dims_global mmd nom active_nodes = Inr (fnodes, sto, rf)"
  shows "\<exists>ys. fnodes = 0 # ys \<and> set ys \<subseteq> set active_nodes"
proof -
  from assms obtain s' where
    "sweep dims_global mmd nom active_nodes (sweep_init (length dims_global)) = Inr s'"
    and "fnodes = future_nodes s'"
    by (auto simp: plan_def split: sum.splits)
  then show ?thesis
    using sweep_future_nodes [of dims_global mmd nom active_nodes
        "sweep_init (length dims_global)" s']
    by (simp add: sweep_init_def)
qed

lemma sweep_inv_first:
  assumes "0 < length dims_global" and "int (dims_global ! 0) \<le> mmd"
    and "nom = None \<or> (\<exists>n. nom = Some n \<and> 2 \<le> n)"
  shows "\<exists>s1. sweep_step dims_global mmd nom (sweep_init (length dims_global)) 0 = Inr s1
           \<and> sweep_inv dims_global mmd nom {0} s1"
proof -
  let ?s0 = "sweep_init (length dims_global)"
  let ?s1 = "?s0\<lparr>send_to := send_to ?s0, used_budget := used_budget ?s0 + dims_global ! 0,
                  counter := counter ?s0 + 1\<rparr>"
  have "sweep_step dims_global mmd nom ?s0 0 = Inr ?s1"
    using assms by (auto simp: sweep_step_def sweep_init_def)
  moreover have "sweep_inv dims_global mmd nom {0} ?s1"
    using assms by (auto simp: sweep_inv_def sweep_init_def)
  ultimately show ?thesis by blast
qed

lemma recv_from_of_nth:
  assumes "f \<in> set fnodes" and "f < no_procs"
  shows "recv_from_of no_procs fnodes sto ! f = filter (\<lambda>k. sto ! k = Some f) [0..<no_procs]"
proof -
  have "fold (\<lambda>i rf. rf[i := g i]) fnodes rf0 ! f = (if f \<in> set fnodes then g f else rf0 ! f)"
    if "f < length rf0" for g :: "nat \<Rightarrow> nat list" and rf0
    using that by (induction fnodes arbitrary: rf0) (auto simp: nth_list_update)
  from this [of "replicate no_procs []" "\<lambda>i. filter (\<lambda>k. sto ! k = Some i) [0..<no_procs]"]
  show ?thesis
    using assms by (simp add: recv_from_of_def)
qed

lemma filter_senders:
  assumes "length sto = n"
  shows "set (filter (\<lambda>k. sto ! k = Some f) [0..<n]) = senders sto f"
    and "distinct (filter (\<lambda>k. sto ! k = Some f) [0..<n])"
  using assms by (auto simp: senders_def)

text \<open>
  C5. On a level whose active nodes start with rank 0 and are distinct ranks of the
  communicator (as all ranks are on level 0), with every active width at most
  \<open>maxmergedim\<close> and \<open>no_of_merges\<close> unset or at least 2, the sweep returns a plan in
  which, for every future node \<open>f\<close>, the widths of \<open>f\<close> and of the nodes in
  \<^verbatim>\<open>recv_from[f]\<close> sum to at most \<open>maxmergedim\<close>, and \<open>f\<close> with its senders are at most
  \<open>no_of_merges\<close> nodes when that is set. The future nodes again start with rank 0 and
  are distinct active nodes, so the next level is such a level as well.
\<close>

theorem plan_respects_merge_caps:
  assumes "active_nodes = 0 # rest" and "distinct active_nodes"
    and "\<forall>a \<in> set active_nodes. a < length dims_global \<and> int (dims_global ! a) \<le> mmd"
    and "nom = None \<or> (\<exists>n. nom = Some n \<and> 2 \<le> n)"
  shows "\<exists>fnodes sto rf. plan dims_global mmd nom active_nodes = Inr (fnodes, sto, rf)
     \<and> (\<forall>f \<in> set fnodes.
          int (dims_global ! f + sum_list (map ((!) dims_global) (rf ! f))) \<le> mmd
          \<and> (\<forall>n. nom = Some n \<longrightarrow> int (length (f # rf ! f)) \<le> n))
     \<and> hd fnodes = 0 \<and> distinct fnodes \<and> set fnodes \<subseteq> set active_nodes"
proof -
  let ?P = "length dims_global"
  obtain s1 where s1: "sweep_step dims_global mmd nom (sweep_init ?P) 0 = Inr s1"
      "sweep_inv dims_global mmd nom {0} s1"
    using sweep_inv_first [of dims_global mmd nom] assms by auto
  obtain s' where s': "sweep dims_global mmd nom rest s1 = Inr s'"
      "sweep_inv dims_global mmd nom ({0} \<union> set rest) s'"
    using sweep_inv_sweep [of dims_global mmd nom "{0}" s1 rest] s1(2) assms by auto
  let ?fn = "future_nodes s'" and ?sto = "send_to s'"
  let ?rf = "recv_from_of ?P ?fn ?sto"
  have plan: "plan dims_global mmd nom active_nodes = Inr (?fn, ?sto, ?rf)"
    using s1(1) s'(1) assms(1) by (simp add: plan_def)
  have len: "length ?sto = ?P" and sub: "set ?fn \<subseteq> {0} \<union> set rest" and dist: "distinct ?fn"
    and grp: "\<And>f. f \<in> set ?fn \<Longrightarrow>
        int (dims_global ! f + sum ((!) dims_global) (senders ?sto f)) \<le> mmd \<and>
        (\<forall>n. nom = Some n \<longrightarrow> 1 + int (card (senders ?sto f)) \<le> n)"
    using s'(2) unfolding sweep_inv_def by blast+
  have caps: "int (dims_global ! f + sum_list (map ((!) dims_global) (?rf ! f))) \<le> mmd
          \<and> (\<forall>n. nom = Some n \<longrightarrow> int (length (f # ?rf ! f)) \<le> n)"
    if f: "f \<in> set ?fn" for f
  proof -
    have "f < ?P"
      using f sub assms(1,3) by auto
    then have rf: "?rf ! f = filter (\<lambda>k. ?sto ! k = Some f) [0..<?P]"
      using f by (rule recv_from_of_nth [rotated])
    have "sum_list (map ((!) dims_global) (?rf ! f)) = sum ((!) dims_global) (senders ?sto f)"
      unfolding rf using filter_senders [OF len, of f]
      by (simp add: sum_list_distinct_conv_sum_set)
    moreover have "length (?rf ! f) = card (senders ?sto f)"
      unfolding rf using filter_senders [OF len, of f]
      by (metis distinct_card)
    ultimately show ?thesis
      using grp [OF f] by simp
  qed
  have hd0: "hd ?fn = 0"
    using plan_future_nodes [OF plan] by auto
  show ?thesis
    using plan caps hd0 dist sub assms(1) by auto
qed

lemma sweep_step_returns:
  "a < length dims_global \<Longrightarrow> \<exists>s'. sweep_step dims_global mmd nom s a = Inr s'"
  by (simp add: sweep_step_def)

lemma sweep_returns:
  "\<forall>a \<in> set as. a < length dims_global \<Longrightarrow> \<exists>s'. sweep dims_global mmd nom as s = Inr s'"
proof (induction as arbitrary: s)
  case Nil
  then show ?case by simp
next
  case (Cons a as)
  then obtain s1 where "sweep_step dims_global mmd nom s a = Inr s1"
    using sweep_step_returns [of a dims_global mmd nom s] by auto
  then show ?case
    using Cons by simp
qed

lemma plan_returns:
  assumes "\<forall>a \<in> set active_nodes. a < length dims_global"
  shows "\<exists>fnodes sto rf. plan dims_global mmd nom active_nodes = Inr (fnodes, sto, rf)"
  using sweep_returns [OF assms, of mmd nom "sweep_init (length dims_global)"]
  by (auto simp: plan_def)

lemma level_active_shape:
  assumes "level_active no_procs active" and "0 < no_procs"
  shows "(\<exists>ys. active = 0 # ys) \<and> (\<forall>a \<in> set active. a < no_procs)"
  using assms
proof (induction rule: level_active.induct)
  case level0
  then show ?case
    by (simp add: upt_conv_Cons)
next
  case (next_level active dims_global mmd nom fnodes sto rf)
  then show ?case
    using plan_future_nodes [of dims_global mmd nom active fnodes sto rf] by auto
qed

text \<open>
  C8. On every level the level loop can reach on a communicator of at least one process,
  and whatever widths are published, the sweep returns a plan whose future nodes start
  with the first active node, which is rank 0: rank 0 is active on every level, it is a
  future node of every level, and when a single future node is left it is the root of
  the final broadcasts.
\<close>

theorem rank_zero_heads_every_level:
  assumes "level_active no_procs active" and "0 < no_procs"
    and "length dims_global = no_procs"
  shows "\<exists>fnodes sto rf. plan dims_global mmd nom active = Inr (fnodes, sto, rf)
     \<and> fnodes \<noteq> [] \<and> hd fnodes = hd active \<and> hd active = 0
     \<and> 0 \<in> set active \<and> 0 \<in> set fnodes
     \<and> (length fnodes = 1 \<longrightarrow> fnodes = [bcast_root])"
proof -
  obtain ys where act: "active = 0 # ys" and rng: "\<forall>a \<in> set active. a < no_procs"
    using level_active_shape [OF assms(1,2)] by blast
  obtain fnodes sto rf where plan: "plan dims_global mmd nom active = Inr (fnodes, sto, rf)"
    using plan_returns [of active dims_global mmd nom] rng assms(3) by auto
  obtain zs where "fnodes = 0 # zs"
    using plan_future_nodes [OF plan] by blast
  then show ?thesis
    using plan act by (auto simp: bcast_root_def)
qed

lemmas plan_eval = plan_def sweep_init_def sweep_step_def recv_from_of_def upt_conv_Cons

theorem rank_zero_heads_every_level_witness:
  "plan [1, 1, 1] 2 None [0, 1, 2] = Inr ([0, 2], [None, Some 0, None], [[1], [], []])
   \<and> hd [0, 2 :: nat] = hd [0, 1, 2 :: nat]
   \<and> plan [1, 1, 1] 2 None [0, 2] = Inr ([0], [None, None, Some 0], [[2], [], []])
   \<and> [0] = [bcast_root]"
proof -
  have "[0..<3] = [0, 1, 2 :: nat]"
    by code_simp
  then have l0: "level_active 3 [0, 1, 2]"
    using level0 [of 3] by simp
  have p0: "plan [1, 1, 1] 2 None [0, 1, 2] = Inr ([0, 2], [None, Some 0, None], [[1], [], []])"
    by (simp add: plan_eval)
  have l1: "level_active 3 [0, 2]"
    using next_level [OF l0 _ p0] by simp
  show ?thesis
    using rank_zero_heads_every_level [OF l0, of "[1, 1, 1]" 2 None]
      rank_zero_heads_every_level [OF l1, of "[1, 1, 1]" 2 None] p0
    by (simp add: plan_eval bcast_root_def)
qed

theorem plan_respects_merge_caps_witness:
  "plan [2, 3, 1, 4] 5 (Some 2) [0, 1, 2, 3] =
     Inr ([0, 2], [None, Some 0, None, Some 2], [[1], [], [3], []])
   \<and> int ([2, 3, 1, 4] ! 0 + sum_list (map ((!) [2, 3, 1, 4]) [1])) \<le> 5
   \<and> int ([2, 3, 1, 4] ! 2 + sum_list (map ((!) [2, 3, 1, 4]) [3])) \<le> 5
   \<and> int (length [0 :: nat, 1]) \<le> 2 \<and> int (length [2 :: nat, 3]) \<le> 2"
  using plan_respects_merge_caps [of "[0, 1, 2, 3]" "[1, 2, 3]" "[2, 3, 1, 4]" 5 "Some 2"]
  by (simp add: plan_eval)

section \<open>The tolerance on one process\<close>

lemma sqrt_squares [simp]:
  "sqrt 144 = 12" "sqrt 16 = 4" "sqrt 9 = 3" "sqrt 169 = 13" "sqrt 25 = 5"
  using real_sqrt_abs [of 12] real_sqrt_abs [of 4] real_sqrt_abs [of 3]
    real_sqrt_abs [of 13] real_sqrt_abs [of 5]
  by simp_all

lemma loctol_squared [simp]: "(9 / 2 :: real)\<^sup>2 = 81 / 4"
  by (simp add: power2_eq_square)

lemma column_svd_level0:
  "column_svd \<lparr>nrows = 3, columns = [[12, 0, 0], [0, 4, 0], [0, 0, 3]]\<rparr> =
     (\<lparr>nrows = 3, columns = [[1, 0, 0], [0, 1, 0], [0, 0, 1]]\<rparr>, [12, 4, 3])"
  by (simp add: column_svd_def norm2_def)

lemma column_svd_level1:
  "column_svd \<lparr>nrows = 3, columns = [[12, 0, 0], [0, 4, 0]]\<rparr> =
     (\<lparr>nrows = 3, columns = [[1, 0, 0], [0, 1, 0]]\<rparr>, [12, 4])"
  by (simp add: column_svd_def norm2_def)

text \<open>On both matrices these factors are a singular value decomposition: the left factor
  times the diagonal of singular values gives the matrix back, and the columns of the left
  factor are orthonormal.\<close>

lemma column_svd_level0_is_svd:
  "(case column_svd \<lparr>nrows = 3, columns = [[12, 0, 0], [0, 4, 0], [0, 0, 3]]\<rparr> of
      (U, sigma) \<Rightarrow>
        scale_columns U sigma = \<lparr>nrows = 3, columns = [[12, 0, 0], [0, 4, 0], [0, 0, 3]]\<rparr>
        \<and> map (\<lambda>u. map (dot u) (columns U)) (columns U) = [[1, 0, 0], [0, 1, 0], [0, 0, 1]])"
  by (simp add: column_svd_level0 scale_columns_def dot_def)

lemma column_svd_level1_is_svd:
  "(case column_svd \<lparr>nrows = 3, columns = [[12, 0, 0], [0, 4, 0]]\<rparr> of
      (U, sigma) \<Rightarrow>
        scale_columns U sigma = \<lparr>nrows = 3, columns = [[12, 0, 0], [0, 4, 0]]\<rparr>
        \<and> map (\<lambda>u. map (dot u) (columns U)) (columns U) = [[1, 0], [0, 1]])"
  by (simp add: column_svd_level1 scale_columns_def dot_def)

lemma level0_truncation: "compute_local_truncated_svd column_svd Float64
     \<lparr>nrows = 3, columns = [[12, 0, 0], [0, 4, 0], [0, 0, 3]]\<rparr> 3 (Some (9 / 2)) 0 = 
   Inr (\<lparr>nrows = 3, columns = [[1, 0, 0], [0, 1, 0]]\<rparr>, [12, 4], 9)"
  by (simp add: clts_eval column_svd_level0)

lemma level1_truncation: "compute_local_truncated_svd column_svd Float64
     \<lparr>nrows = 3, columns = [[12, 0, 0], [0, 4, 0]]\<rparr> 3 (Some (9 / 2)) 0 = 
   Inr (\<lparr>nrows = 3, columns = [[1, 0, 0]]\<rparr>, [12], 16)"
  by (simp add: clts_eval column_svd_level1)

lemma frobenius_norm_example: "vector_norm (garray \<lparr>gshape = [3, 3], dtype = Float64, split = Some (Suc 0),
           larrays = [\<lparr>nrows = 3, columns = [[12, 0, 0], [0, 4, 0], [0, 0, 3]]\<rparr>]\<rparr>) = 13"
  by (simp add: vector_norm_def garray_def hstack_def norm2_def)

text \<open>
  C9. One process holds \<open>A = diag(12, 4, 3)\<close>, of norm 13, and calls
  \<^verbatim>\<open>hsvd_rtol(A, rtol=9/26, safetyshift=0)\<close>. The gate passes \<open>maxrank = 3\<close> (no rank
  cap), \<open>maxmergedim = 7\<close> and \<open>no_of_merges = 2\<close>; the local tolerance is
  \<open>13 * (9/26) / sqrt(2 * 1 - 1) = 9/2\<close>. Level 0 keeps two singular values and drops
  \<open>3\<close> (\<open>9 < 81/4\<close>); the level loop then truncates the same factor once more on rank 0,
  keeps one singular value and drops \<open>4\<close> (\<open>16 < 81/4\<close>). The squared errors add up to
  \<open>25\<close>, and the estimate returned is \<open>5/13\<close>, which is more than \<open>rtol = 9/26\<close>.
  The result is the same for every positive amount of fuel.
\<close>

theorem reported_error_exceeds_rtol_on_one_process:
  "hsvd_rtol_gate
     (DND \<lparr>gshape = [3, 3], dtype = Float64, split = Some 1,
           larrays = [\<lparr>nrows = 3, columns = [[12, 0, 0], [0, 4, 0], [0, 0, 3]]\<rparr>]\<rparr>)
     (9 / 26) False None None 0 None =
   Inr (\<lparr>gshape = [3, 3], dtype = Float64, split = Some 1,
         larrays = [\<lparr>nrows = 3, columns = [[12, 0, 0], [0, 4, 0], [0, 0, 3]]\<rparr>]\<rparr>,
        \<lparr>kw_maxrank = 3, kw_maxmergedim = 7, kw_rtol = Some (9 / 26), kw_safetyshift = 0,
         kw_no_of_merges = Some 2, kw_full = False\<rparr>)
   \<and> hsvd column_svd (Suc fuel)
     \<lparr>gshape = [3, 3], dtype = Float64, split = Some 1,
       larrays = [\<lparr>nrows = 3, columns = [[12, 0, 0], [0, 4, 0], [0, 0, 3]]\<rparr>]\<rparr>
     \<lparr>kw_maxrank = 3, kw_maxmergedim = 7, kw_rtol = Some (9 / 26), kw_safetyshift = 0,
       kw_no_of_merges = Some 2, kw_full = False\<rparr> =
   Some (Inr (Ret2 \<lparr>nrows = 3, columns = [[Fin 1, Fin 0, Fin 0]]\<rparr> (Fin (5 / 13))))
   \<and> \<not> (5 / 13 :: real) \<le> 9 / 26"
  by (simp add: gate_eval hsvd_def frobenius_norm_example level0_truncation
      level1_truncation Let_def scale_columns_def plan_eval
      rank_step_def hstack_def postprocess_def fin_tensor_def fdiv_def bcast_root_def)

section \<open>The post-processing within the driver\<close>

lemma diagonal_svd_example:
  "diagonal_svd \<lparr>nrows = 3, columns = [[1, 0, 0], [0, 0, 0], [0, 0, 0]]\<rparr> =
     (\<lparr>nrows = 3, columns = [[1, 0, 0], [0, 1, 0], [0, 0, 1]]\<rparr>, [1, 0, 0])"
  by (simp add: diagonal_svd_def shape1_def upt_conv_Cons)

lemma diagonal_svd_example_is_svd:
  "(case diagonal_svd \<lparr>nrows = 3, columns = [[1, 0, 0], [0, 0, 0], [0, 0, 0]]\<rparr> of
      (U, sigma) \<Rightarrow>
        scale_columns U sigma = \<lparr>nrows = 3, columns = [[1, 0, 0], [0, 0, 0], [0, 0, 0]]\<rparr>
        \<and> map (\<lambda>u. map (dot u) (columns U)) (columns U) = [[1, 0, 0], [0, 1, 0], [0, 0, 1]])"
  by (simp add: diagonal_svd_example scale_columns_def dot_def)











section \<open>The rank gate on a rank that is not positive\<close>

text \<open>
  C4. Two processes hold one column each of the 2 by 2 identity and call
  \<^verbatim>\<open>hsvd_rank(A, maxrank=0, safetyshift=0)\<close>. The gate raises nothing and calls
  \<^verbatim>\<open>hsvd\<close> with \<open>maxrank = 0\<close>; level 0 leaves both processes a factor without columns,
  the sweep gives rank 1 no future node to send to, and the run fails in its send, after
  the local SVDs and the broadcasts of the widths. \<^verbatim>\<open>hsvd_rtol\<close> does raise at its gate
  when the \<open>maxrank\<close> it derives is not positive.
\<close>

theorem hsvd_rank_accepts_maxrank_zero:
  "hsvd_rank_gate
     (DND \<lparr>gshape = [2, 2], dtype = Float64, split = Some 1,
           larrays = [\<lparr>nrows = 2, columns = [[1, 0]]\<rparr>, \<lparr>nrows = 2, columns = [[0, 1]]\<rparr>]\<rparr>)
     0 False None 0 =
   Inr (\<lparr>gshape = [2, 2], dtype = Float64, split = Some 1,
         larrays = [\<lparr>nrows = 2, columns = [[1, 0]]\<rparr>, \<lparr>nrows = 2, columns = [[0, 1]]\<rparr>]\<rparr>,
        \<lparr>kw_maxrank = 0, kw_maxmergedim = 1, kw_rtol = None, kw_safetyshift = 0,
         kw_no_of_merges = None, kw_full = False\<rparr>)
   \<and> hsvd column_svd (Suc fuel)
     \<lparr>gshape = [2, 2], dtype = Float64, split = Some 1,
       larrays = [\<lparr>nrows = 2, columns = [[1, 0]]\<rparr>, \<lparr>nrows = 2, columns = [[0, 1]]\<rparr>]\<rparr>
     \<lparr>kw_maxrank = 0, kw_maxmergedim = 1, kw_rtol = None, kw_safetyshift = 0,
       kw_no_of_merges = None, kw_full = False\<rparr> = Some (Inl TypeError)
   \<and> hsvd_rtol_gate
     (DND \<lparr>gshape = [2, 2], dtype = Float64, split = Some 1,
           larrays = [\<lparr>nrows = 2, columns = [[1, 0]]\<rparr>, \<lparr>nrows = 2, columns = [[0, 1]]\<rparr>]\<rparr>)
     (1 / 10) False None (Some 3) 0 None = Inl ValueError"
  by (simp add: gate_eval hsvd_def Let_def clts_eval column_svd_def norm2_def scale_columns_def
      plan_eval rank_step_def hstack_def)

section \<open>Further properties\<close>

text \<open>
  As long as base rank plus safety shift stays within the number of singular values, the
  squared error is the squared norm of the tail from the base rank \<open>b\<close>.
\<close>

lemma error_tail_from_base_rank:
  assumes "svd M = (U_f, sigma)" and "noiselevel dt = Inr nl"
    and "py_max (argwhere_ge sigma nl) = Inr mx"
    and "loctol = None \<and> b = min maxrank (mx + 1)
       \<or> (\<exists>tol itr. loctol = Some tol \<and> ideal_trunc_rank sigma tol = Inr itr
             \<and> b = min maxrank (min itr (mx + 1)))"
    and "b + safetyshift \<le> int (length sigma)"
  shows "compute_local_truncated_svd svd dt M maxrank loctol safetyshift =
           Inr (col_slice_to U_f (b + safetyshift), slice_to sigma (b + safetyshift),
                (norm2 (slice_from sigma b))\<^sup>2)"
proof -
  have "argwhere_ge sigma nl \<noteq> []"
    using assms(3) by auto
  moreover have "min (int (length sigma)) (b + safetyshift) = b + safetyshift"
    using assms(5) by simp
  ultimately show ?thesis
    using assms(1-4) by (auto simp: compute_local_truncated_svd_def Let_def)
qed

text \<open>
  For a tolerance that is not zero the search succeeds, and the tolerance rank is the
  least \<open>k\<close> among \<open>0, \<dots>, c\<close> whose tail has a squared norm below \<open>loctol\<^sup>2\<close>.
\<close>

lemma tail_norms_squared_nth:
  "k \<le> length sigma \<Longrightarrow> tail_norms_squared sigma ! k = (norm2 (drop k sigma))\<^sup>2"
  unfolding tail_norms_squared_def
  by (simp add: slice_from_def nth_append del: upt_Suc)

lemma ideal_trunc_rank_least:
  assumes "tol \<noteq> 0"
  shows "\<exists>k \<le> length sigma. ideal_trunc_rank sigma tol = Inr (int k)
           \<and> (norm2 (drop k sigma))\<^sup>2 < tol\<^sup>2
           \<and> (\<forall>j < k. \<not> (norm2 (drop j sigma))\<^sup>2 < tol\<^sup>2)"
proof -
  let ?t = "tail_norms_squared sigma"
  let ?c = "argwhere_less ?t (tol\<^sup>2)"
  have len: "length ?t = length sigma + 1"
    by (simp add: tail_norms_squared_def)
  have mem: "int j \<in> set ?c \<longleftrightarrow> j \<le> length sigma \<and> (norm2 (drop j sigma))\<^sup>2 < tol\<^sup>2" for j
  proof -
    have "set ?c = int ` {i. i < length ?t \<and> ?t ! i < tol\<^sup>2}"
      unfolding argwhere_less_def by auto
    then have "int j \<in> set ?c \<longleftrightarrow> j < length ?t \<and> ?t ! j < tol\<^sup>2"
      by auto
    also have "\<dots> \<longleftrightarrow> j \<le> length sigma \<and> (norm2 (drop j sigma))\<^sup>2 < tol\<^sup>2"
      using tail_norms_squared_nth [of j sigma] unfolding len by auto
    finally show ?thesis .
  qed
  have ne: "?c \<noteq> []"
    using last_tail_is_candidate [OF assms, of sigma] by auto
  then have "Min (set ?c) \<in> set ?c"
    by (intro Min_in) auto
  then obtain k where k: "Min (set ?c) = int k"
    by (auto simp: argwhere_less_def)
  have kin: "int k \<in> set ?c"
    using \<open>Min (set ?c) \<in> set ?c\<close> k by simp
  have least: "\<not> (norm2 (drop j sigma))\<^sup>2 < tol\<^sup>2" if "j < k" for j
  proof
    assume "(norm2 (drop j sigma))\<^sup>2 < tol\<^sup>2"
    moreover have "j \<le> length sigma"
      using that kin mem [of k] by simp
    ultimately have "int j \<in> set ?c"
      using mem [of j] by simp
    then have "Min (set ?c) \<le> int j"
      by (intro Min_le) auto
    then show False
      using k that by simp
  qed
  have "ideal_trunc_rank sigma tol = Inr (int k)"
    using ne k by (simp add: ideal_trunc_rank_def py_min_eq)
  then show ?thesis
    using kin mem [of k] least by blast
qed

text \<open>
  Off the boundary \<open>L = 2 * (maxrank + safetyshift)\<close> the default merge width of
  \<^verbatim>\<open>hsvd_rank\<close> is \<open>max(L, 2 * (maxrank + safetyshift) + 1)\<close>.
\<close>

lemma hsvd_rank_default_maxmergedim:
  assumes "ndim A = 2" and "dtype A = Float32 \<or> dtype A = Float64"
    and "py_max (map (\<lambda>s. int (snd s)) (lshape_map A)) = Inr L"
    and "L \<noteq> 2 * (maxrank + safetyshift)"
  shows "hsvd_rank_gate (DND A) maxrank full None safetyshift =
           Inr (A, \<lparr>kw_maxrank = maxrank,
                    kw_maxmergedim = max L (2 * (maxrank + safetyshift) + 1),
                    kw_rtol = None, kw_safetyshift = safetyshift, kw_no_of_merges = None,
                    kw_full = full\<rparr>)"
  using assms by (auto simp: hsvd_rank_gate_def max_def)

text \<open>A result of the level loop does not depend on the fuel left over.\<close>

lemma hsvd_loop_more_fuel:
  "hsvd_loop fuel svd dt args loctol active procs = Some r \<Longrightarrow>
   hsvd_loop (fuel + n) svd dt args loctol active procs = Some r"
proof (induction fuel svd dt args loctol active procs rule: hsvd_loop.induct)
  case (1 svd dt args loctol active_nodes procs)
  then show ?case by simp
next
  case (2 fuel svd dt args loctol active_nodes procs)
  then show ?case
    by (auto simp: Let_def split: sum.splits prod.splits if_splits)
qed


lemma hsvd_more_fuel:
  assumes "hsvd svd fuel A args = Some r"
  shows "hsvd svd (fuel + n) A args = Some r"
proof -
  define B where "B = (if split A = Some 0 then transpose_dnd A else A)"
  define loctol where
    "loctol = map_option (\<lambda>rt. vector_norm (garray B) * rt / sqrt (2 * real (length (larrays B)) - 1))
                (kw_rtol args)"
  define locs where
    "locs = collect (map (\<lambda>T. compute_local_truncated_svd svd (dtype B) T (kw_maxrank args)
                               loctol (kw_safetyshift args)) (larrays B))"
  have unfold: "hsvd svd k A args =
      (case locs of
         Inl e \<Rightarrow> Some (Inl e)
       | Inr ls \<Rightarrow>
           (case hsvd_loop k svd (dtype B) args loctol [0..<length (larrays B)]
                   (map (\<lambda>(U, sigma, e).
                           \<lparr>U_loc = scale_columns U sigma, err_squared_loc = e,
                            shift = kw_safetyshift args\<rparr>) ls) of
              None \<Rightarrow> None
            | Some (Inl e) \<Rightarrow> Some (Inl e)
            | Some (Inr procs) \<Rightarrow>
                Some (Inr (postprocess (garray B) (split A = Some 0) (kw_full args)
                             (U_loc (procs ! bcast_root))
                             (fdiv (sqrt (err_squared_loc (procs ! bcast_root)))
                                (vector_norm (garray B)))))))" for k
    unfolding hsvd_def Let_def locs_def loctol_def B_def by (rule refl)
  show ?thesis
  proof (cases locs)
    case (Inl e)
    then show ?thesis
      using assms by (simp add: unfold)
  next
    case (Inr ls)
    let ?loop = "\<lambda>k. hsvd_loop k svd (dtype B) args loctol [0..<length (larrays B)]
                   (map (\<lambda>(U, sigma, e).
                           \<lparr>U_loc = scale_columns U sigma, err_squared_loc = e,
                            shift = kw_safetyshift args\<rparr>) ls)"
    from assms Inr obtain x where x: "?loop fuel = Some x"
      by (cases "?loop fuel") (simp_all add: unfold)
    then have "?loop (fuel + n) = Some x"
      by (rule hsvd_loop_more_fuel)
    then show ?thesis
      using assms Inr x by (simp add: unfold)
  qed
qed

end
